theory Spec2Isabelle
  imports
    Main
    "HOL-Library.Char_ord"
    "HOL-Library.List_Lexorder"
    "HOL-Library.Product_Lexorder"
    "HOL-Library.Multiset"
    "HOL-Library.Word"
begin

section \<open>Kai MB Mechanic booking: slots, availability and the booking store\<close>

text \<open>
  The development embeds the functions of \<^verbatim>\<open>src/app.py\<close> that carry the booking logic:
  \<^verbatim>\<open>generate_slots\<close>, \<^verbatim>\<open>slot_taken\<close>, \<^verbatim>\<open>lead_time_ok\<close>, \<^verbatim>\<open>insert_booking\<close>,
  \<^verbatim>\<open>fetch_bookings\<close>, \<^verbatim>\<open>update_status\<close>, and the two pieces of the page script that
  compute the offered slots (lines 244-246) and the admin view with its total column
  (lines 330-339).

  Conventions of the model.
  \<^item> A Python \<^verbatim>\<open>str\<close> is a \<^typ>\<open>string\<close>, a list of 8-bit characters read as code points
    below 256. SQLite compares TEXT values bytewise; on such strings that is the
    lexicographic order of \<^typ>\<open>char list\<close>.
  \<^item> A Python \<^verbatim>\<open>int\<close> is an \<^typ>\<open>int\<close>. An INTEGER column of the table, and the column
    of the data frame read from it, holds signed 64-bit integers, here \<^typ>\<open>64 word\<close> read
    by \<open>sint\<close>: binding a Python int outside that range raises OverflowError, and the
    data frame's arithmetic wraps around.
  \<^item> The bookings table is the list of its rows in insertion order, together with the
    AUTOINCREMENT counter. Faults of the disk or the database file, and the engine's limit
    on the length of a text value, are outside the model.
  \<^item> A \<^verbatim>\<open>datetime\<close> is the number of microseconds since the midnight that
    starts ordinal day 0, the encoding Python's own \<^verbatim>\<open>datetime + timedelta\<close> goes
    through; the clock reading \<^verbatim>\<open>datetime.now()\<close> is an argument \<open>now\<close>.
  \<^item> An exception that leaves a function is a value \<open>Inl e\<close>; a loop that may run
    forever returns an \<open>option\<close>.
\<close>

subsection \<open>Settings (lines 43-51)\<close>

definition WORK_DAYS :: "int set" where
  "WORK_DAYS = {0, 1, 2, 3, 4, 5}"

record time =
  hour :: int
  minute :: int

definition DAY_START :: time where
  "DAY_START = \<lparr>hour = 9, minute = 0\<rparr>"

definition DAY_END :: time where
  "DAY_END = \<lparr>hour = 18, minute = 0\<rparr>"

definition SLOT_MINUTES :: int where
  "SLOT_MINUTES = 60"

definition MIN_LEAD_TIME_MINUTES :: int where
  "MIN_LEAD_TIME_MINUTES = 60"

subsection \<open>Dates and datetimes of the standard library\<close>

datatype error = OverflowError | OperationalError | ValueError | TypeError

record date =
  year :: int
  month :: int
  day :: int

definition is_leap :: "int \<Rightarrow> bool" where
  "is_leap y = (y mod 4 = 0 \<and> (y mod 100 \<noteq> 0 \<or> y mod 400 = 0))"

definition DAYS_IN_MONTH :: "int list" where
  "DAYS_IN_MONTH = [31, 28, 31, 30, 31, 30, 31, 31, 30, 31, 30, 31]"

definition days_in_month :: "int \<Rightarrow> int \<Rightarrow> int" where
  "days_in_month y m = (if m = 2 \<and> is_leap y then 29 else DAYS_IN_MONTH ! nat (m - 1))"

definition days_before_year :: "int \<Rightarrow> int" where
  "days_before_year y = (let y1 = y - 1 in y1 * 365 + y1 div 4 - y1 div 100 + y1 div 400)"

definition days_before_month :: "int \<Rightarrow> int \<Rightarrow> int" where
  "days_before_month y m =
     sum_list (take (nat (m - 1)) DAYS_IN_MONTH) + (if m > 2 \<and> is_leap y then 1 else 0)"

text \<open>The dates the \<^verbatim>\<open>date\<close> type can hold: its constructor refuses every other triple.\<close>

definition valid_date :: "date \<Rightarrow> bool" where
  "valid_date d =
     (1 \<le> year d \<and> year d \<le> 9999 \<and> 1 \<le> month d \<and> month d \<le> 12 \<and>
      1 \<le> day d \<and> day d \<le> days_in_month (year d) (month d))"

definition toordinal :: "date \<Rightarrow> int" where
  "toordinal d = days_before_year (year d) + days_before_month (year d) (month d) + day d"

definition weekday :: "date \<Rightarrow> int" where
  "weekday d = (toordinal d + 6) mod 7"

definition MAXORDINAL :: int where
  "MAXORDINAL = 3652059"

type_synonym datetime = int
type_synonym timedelta = int

definition US_PER_MINUTE :: int where
  "US_PER_MINUTE = 60000000"

definition US_PER_HOUR :: int where
  "US_PER_HOUR = 3600000000"

definition US_PER_DAY :: int where
  "US_PER_DAY = 86400000000"

definition timedelta_minutes :: "int \<Rightarrow> timedelta" where
  "timedelta_minutes n = n * US_PER_MINUTE"

text \<open>\<^verbatim>\<open>datetime.combine(d, t)\<close> for a time built as \<^verbatim>\<open>time(h, m)\<close>: seconds and
  microseconds are zero.\<close>

definition combine :: "date \<Rightarrow> time \<Rightarrow> datetime" where
  "combine d t = toordinal d * US_PER_DAY + hour t * US_PER_HOUR + minute t * US_PER_MINUTE"

text \<open>\<^verbatim>\<open>datetime + timedelta\<close>: the sum, or OverflowError when its day leaves
  \<open>1..MAXORDINAL\<close>.\<close>

definition dt_add :: "datetime \<Rightarrow> timedelta \<Rightarrow> error + datetime" where
  "dt_add dt delta =
     (let r = dt + delta in
      if 0 < r div US_PER_DAY \<and> r div US_PER_DAY \<le> MAXORDINAL then Inr r
      else Inl OverflowError)"

text \<open>The datetimes the \<^verbatim>\<open>datetime\<close> type can hold: days \<open>1..MAXORDINAL\<close>.\<close>

definition valid_datetime :: "datetime \<Rightarrow> bool" where
  "valid_datetime dt = (US_PER_DAY \<le> dt \<and> dt < (MAXORDINAL + 1) * US_PER_DAY)"

text \<open>\<^verbatim>\<open>dt.time()\<close>, of which only the hour and the minute are printed.\<close>

definition dt_time :: "datetime \<Rightarrow> time" where
  "dt_time dt =
     \<lparr>hour = (dt mod US_PER_DAY) div US_PER_HOUR,
      minute = (dt mod US_PER_HOUR) div US_PER_MINUTE\<rparr>"

text \<open>\<^verbatim>\<open>time(h, m)\<close> raises ValueError outside \<open>0..23\<close> and \<open>0..59\<close>.\<close>

definition py_time :: "int \<Rightarrow> int \<Rightarrow> time option" where
  "py_time h m =
     (if 0 \<le> h \<and> h \<le> 23 \<and> 0 \<le> m \<and> m \<le> 59 then Some \<lparr>hour = h, minute = m\<rparr>
      else None)"

subsection \<open>Printing and reading numbers\<close>

definition digit_char :: "nat \<Rightarrow> char" where
  "digit_char n = ''0123456789'' ! n"

fun dec :: "nat \<Rightarrow> string" where
  "dec n = (if n < 10 then [digit_char n] else dec (n div 10) @ [digit_char (n mod 10)])"

declare dec.simps [simp del]

definition zfill :: "nat \<Rightarrow> string \<Rightarrow> string" where
  "zfill w s = replicate (w - length s) (CHR ''0'') @ s"

text \<open>\<^verbatim>\<open>strftime("%H:%M")\<close> and \<^verbatim>\<open>date.isoformat()\<close>.\<close>

definition strftime_HM :: "time \<Rightarrow> string" where
  "strftime_HM t = zfill 2 (dec (nat (hour t))) @ '':'' @ zfill 2 (dec (nat (minute t)))"

definition isoformat :: "date \<Rightarrow> string" where
  "isoformat d =
     zfill 4 (dec (nat (year d))) @ ''-'' @ zfill 2 (dec (nat (month d))) @ ''-'' @
     zfill 2 (dec (nat (day d)))"

text \<open>\<^verbatim>\<open>s.split(sep)\<close> for a one-character separator: one piece more than there are
  separators.\<close>

fun split_on :: "char \<Rightarrow> string \<Rightarrow> string list" where
  "split_on c [] = [[]]"
| "split_on c (x # xs) =
     (if x = c then [] # split_on c xs
      else (let ps = split_on c xs in (x # hd ps) # tl ps))"

text \<open>
  \<^verbatim>\<open>int(s)\<close> on a string, base 10: white space around the literal is dropped, one sign
  may lead, then decimal digits follow, where a single underscore may stand between two
  digits; a literal of more digits than the interpreter's limit (4300 unless configured
  otherwise) is refused. Everything else is a ValueError as well, here \<open>None\<close>.
\<close>

definition is_space :: "char \<Rightarrow> bool" where
  "is_space c =
     (c \<in> {CHR 0x09, CHR 0x0A, CHR 0x0B, CHR 0x0C, CHR 0x0D, CHR 0x20, CHR 0x85, CHR 0xA0})"

definition strip :: "string \<Rightarrow> string" where
  "strip s = rev (dropWhile is_space (rev (dropWhile is_space s)))"

definition is_digit :: "char \<Rightarrow> bool" where
  "is_digit c = (c \<in> set ''0123456789'')"

definition digit_val :: "char \<Rightarrow> int" where
  "digit_val c = int (of_char c) - 48"

fun digits_value :: "int \<Rightarrow> string \<Rightarrow> int option" where
  "digits_value acc [] = None"
| "digits_value acc [c] = (if is_digit c then Some (acc * 10 + digit_val c) else None)"
| "digits_value acc (c # c2 # cs) =
     (if is_digit c then
        (if c2 = CHR ''_'' then digits_value (acc * 10 + digit_val c) cs
         else digits_value (acc * 10 + digit_val c) (c2 # cs))
      else None)"

definition INT_MAX_STR_DIGITS :: nat where
  "INT_MAX_STR_DIGITS = 4300"

definition literal_value :: "string \<Rightarrow> int option" where
  "literal_value ds =
     (if length (filter is_digit ds) > INT_MAX_STR_DIGITS then None else digits_value 0 ds)"

definition py_int :: "string \<Rightarrow> int option" where
  "py_int s =
     (case strip s of
        [] \<Rightarrow> None
      | c # cs \<Rightarrow>
          if c = CHR ''-'' then map_option uminus (literal_value cs)
          else if c = CHR ''+'' then literal_value cs
          else literal_value (c # cs))"

subsection \<open>The slot generator (lines 125-134)\<close>

text \<open>
  The loop of lines 131-133 with its variables: the step in minutes, the end of the day,
  the running \<open>dt\<close> and the list built so far. The sum \<open>dt + timedelta\<close> is computed
  by the loop test, and again with the same value by the increment.
\<close>

partial_function (option) slots_loop ::
  "int \<Rightarrow> datetime \<Rightarrow> datetime \<Rightarrow> string list \<Rightarrow> (error + string list) option" where
  "slots_loop step end_dt dt slots =
     (case dt_add dt (timedelta_minutes step) of
        Inl e \<Rightarrow> Some (Inl e)
      | Inr nxt \<Rightarrow>
          if nxt \<le> end_dt then slots_loop step end_dt nxt (slots @ [strftime_HM (dt_time dt)])
          else Some (Inr slots))"

declare slots_loop.simps [code]

definition generate_slots :: "date \<Rightarrow> (error + string list) option" where
  "generate_slots for_day =
     (if weekday for_day \<notin> WORK_DAYS then Some (Inr [])
      else slots_loop SLOT_MINUTES (combine for_day DAY_END) (combine for_day DAY_START) [])"

subsection \<open>The booking record and the table (lines 66-111)\<close>

type_synonym int64 = "64 word"

definition int64_ok :: "int \<Rightarrow> bool" where
  "int64_ok x = (- (2 ^ 63) \<le> x \<and> x < 2 ^ 63)"

text \<open>
  The sixteen fields of the dataclass, which are also the columns of the table next to
  its key. The integer fields have the type \<open>'i\<close>: the dataclass \<^verbatim>\<open>Booking\<close> is
  \<open>int Booking\<close>, and a row of the table holds 64-bit integers.
\<close>

record 'i Booking =
  created_at :: string
  customer_name :: string
  phone :: string
  suburb :: string
  address :: string
  bike_type :: string
  service_name :: string
  service_price :: 'i
  addons :: string
  addons_price :: 'i
  travel_zone :: string
  travel_fee :: 'i
  booking_date :: string
  booking_time :: string
  booking_notes :: string
  status :: string

text \<open>A row of the table, \<open>int64 Row\<close>: the columns of a booking and the primary key
  \<^verbatim>\<open>id\<close>. There is no column for a total.\<close>

record 'i Row = "'i Booking" +
  rowid :: 'i

text \<open>The connection: the table \<^verbatim>\<open>bookings\<close> and the largest key given out so far, which
  AUTOINCREMENT keeps in \<^verbatim>\<open>sqlite_sequence\<close>.\<close>

record conn =
  bookings :: "int64 Row list"
  sqlite_sequence :: int64

definition get_conn :: conn where
  "get_conn = \<lparr>bookings = [], sqlite_sequence = 0\<rparr>"

definition next_rowid :: "conn \<Rightarrow> int" where
  "next_rowid c =
     fold max (map (\<lambda>r. sint (rowid r)) (bookings c)) (sint (sqlite_sequence c)) + 1"

subsection \<open>The store operations (lines 137-193)\<close>

definition slot_taken :: "conn \<Rightarrow> string \<Rightarrow> string \<Rightarrow> bool" where
  "slot_taken c d t =
     (length (filter (\<lambda>r. booking_date r = d \<and> booking_time r = t \<and> status r \<noteq> ''cancelled'')
        (bookings c)) > 0)"

text \<open>
  The INSERT binds its parameters first: a Python int that does not fit a 64-bit integer
  raises OverflowError, and nothing is stored. The statement then fails with
  OperationalError (the engine's error for a full table) when the largest key has been
  given out already. Otherwise the row is appended under the next key.
\<close>

definition insert_booking :: "conn \<Rightarrow> int Booking \<Rightarrow> error + conn" where
  "insert_booking c b =
     (if \<not> (int64_ok (service_price b) \<and> int64_ok (addons_price b) \<and> int64_ok (travel_fee b))
      then Inl OverflowError
      else if \<not> int64_ok (next_rowid c) then Inl OperationalError
      else Inr
       \<lparr>bookings = bookings c @
          [\<lparr>created_at = created_at b,
            customer_name = customer_name b,
            phone = phone b,
            suburb = suburb b,
            address = address b,
            bike_type = bike_type b,
            service_name = service_name b,
            service_price = word_of_int (service_price b),
            addons = addons b,
            addons_price = word_of_int (addons_price b),
            travel_zone = travel_zone b,
            travel_fee = word_of_int (travel_fee b),
            booking_date = booking_date b,
            booking_time = booking_time b,
            booking_notes = booking_notes b,
            status = status b,
            rowid = word_of_int (next_rowid c)\<rparr>],
        sqlite_sequence = word_of_int (next_rowid c)\<rparr>)"

text \<open>\<^verbatim>\<open>ORDER BY booking_date DESC, booking_time DESC, id DESC\<close>.\<close>

definition order_key :: "int64 Row \<Rightarrow> string \<times> string \<times> int" where
  "order_key r = (booking_date r, booking_time r, sint (rowid r))"

definition fetch_bookings :: "conn \<Rightarrow> int64 Row list" where
  "fetch_bookings c = rev (sort_key order_key (bookings c))"

text \<open>The UPDATE binds \<^verbatim>\<open>booking_id\<close> in the same way: outside the 64-bit range it raises
  OverflowError and the table is as it was.\<close>

definition update_status :: "conn \<Rightarrow> int \<Rightarrow> string \<Rightarrow> error + conn" where
  "update_status c booking_id new_status =
     (if \<not> int64_ok booking_id then Inl OverflowError
      else Inr (c\<lparr>bookings :=
        map (\<lambda>r. if sint (rowid r) = booking_id then r\<lparr>status := new_status\<rparr> else r)
          (bookings c)\<rparr>))"

subsection \<open>The lead-time check (lines 145-151)\<close>

text \<open>The body of the \<^verbatim>\<open>try\<close>: \<open>None\<close> when any of its steps raises.\<close>

definition chosen_dt :: "date \<Rightarrow> string \<Rightarrow> datetime option" where
  "chosen_dt chosen_day chosen_time_str =
     (case split_on (CHR '':'') chosen_time_str of
        [hh, mm] \<Rightarrow>
          (case py_int hh of
             None \<Rightarrow> None
           | Some h \<Rightarrow>
               (case py_int mm of
                  None \<Rightarrow> None
                | Some m \<Rightarrow>
                    (case py_time h m of
                       None \<Rightarrow> None
                     | Some t \<Rightarrow> Some (combine chosen_day t))))
      | _ \<Rightarrow> None)"

definition lead_time_ok :: "date \<Rightarrow> string \<Rightarrow> datetime \<Rightarrow> error + bool" where
  "lead_time_ok chosen_day chosen_time_str now =
     (case chosen_dt chosen_day chosen_time_str of
        None \<Rightarrow> Inr True
      | Some cdt \<Rightarrow>
          (case dt_add now (timedelta_minutes MIN_LEAD_TIME_MINUTES) of
             Inl e \<Rightarrow> Inl e
           | Inr lim \<Rightarrow> Inr (cdt \<ge> lim)))"

subsection \<open>The offered slots (lines 244-246)\<close>

text \<open>A list comprehension whose condition may raise: the first exception ends it.\<close>

fun filter_raising :: "('a \<Rightarrow> error + bool) \<Rightarrow> 'a list \<Rightarrow> error + 'a list" where
  "filter_raising p [] = Inr []"
| "filter_raising p (x # xs) =
     (case p x of
        Inl e \<Rightarrow> Inl e
      | Inr keep \<Rightarrow>
          (case filter_raising p xs of
             Inl e \<Rightarrow> Inl e
           | Inr ys \<Rightarrow> Inr (if keep then x # ys else ys)))"

text \<open>The page script reads the clock once for each slot it checks; the model takes one
  reading \<open>now\<close> for the whole pass.\<close>

definition free_slots :: "conn \<Rightarrow> date \<Rightarrow> string list \<Rightarrow> datetime \<Rightarrow> error + string list" where
  "free_slots c booking_day slots now =
     (let free = filter (\<lambda>s. \<not> slot_taken c (isoformat booking_day) s) slots in
      if MIN_LEAD_TIME_MINUTES > 0
      then filter_raising (\<lambda>s. lead_time_ok booking_day s now) free
      else Inr free)"

subsection \<open>The admin view (lines 330-339)\<close>

text \<open>
  The view keeps the rows whose status is in the chosen list (all rows when the list is
  empty), then the rows its date test lets through, and then adds the column
  \<^verbatim>\<open>total\<close>, so that a row of the view is a row of the table paired with its total.
  The date test of lines 333-336 is the library's: \<^verbatim>\<open>pd.to_datetime\<close> reads the whole
  column of stored dates and the two bounds, and the comparisons give one truth value for
  each row, or the call raises (for one, on a stored date it cannot read). It is the
  argument \<open>date_mask\<close>, so every statement below holds for whatever the library does.
  The three price columns are 64-bit columns, and their sum is the sum of 64-bit words.
\<close>

definition df_view ::
  "string list \<Rightarrow> (string list \<Rightarrow> error + bool list) \<Rightarrow> int64 Row list \<Rightarrow>
     error + (int64 Row \<times> int64) list" where
  "df_view status_filter date_mask df =
     (let v1 = (if status_filter \<noteq> [] then filter (\<lambda>r. status r \<in> set status_filter) df else df)
      in case date_mask (map booking_date v1) of
           Inl e \<Rightarrow> Inl e
         | Inr keep \<Rightarrow>
             Inr (map (\<lambda>r. (r, service_price r + addons_price r + travel_fee r))
                    (map fst (filter snd (zip v1 keep)))))"

subsection \<open>Sequences of store operations\<close>

text \<open>A request to the store, and the store after it: a request that raises leaves the
  table as it was.\<close>

datatype op = Create "int Booking" | UpdateStatus int string

fun apply_op :: "conn \<Rightarrow> op \<Rightarrow> conn" where
  "apply_op c (Create b) = (case insert_booking c b of Inl e \<Rightarrow> c | Inr c' \<Rightarrow> c')"
| "apply_op c (UpdateStatus booking_id new_status) =
     (case update_status c booking_id new_status of Inl e \<Rightarrow> c | Inr c' \<Rightarrow> c')"

definition run :: "conn \<Rightarrow> op list \<Rightarrow> conn" where
  "run c ops = foldl apply_op c ops"

text \<open>The four values the admin page offers (lines 322 and 347).\<close>

definition STATUSES :: "string list" where
  "STATUSES = [''new'', ''confirmed'', ''done'', ''cancelled'']"

text \<open>The invariant on the status column, and the operations whose status argument is one
  of the four values.\<close>

definition statuses_ok :: "conn \<Rightarrow> bool" where
  "statuses_ok c = list_all (\<lambda>r. status r \<in> set STATUSES) (bookings c)"

fun op_status_ok :: "op \<Rightarrow> bool" where
  "op_status_ok (Create b) = (status b \<in> set STATUSES)"
| "op_status_ok (UpdateStatus booking_id new_status) = (new_status \<in> set STATUSES)"

subsection \<open>Example data\<close>

text \<open>A booking as the submission form builds it, used in the examples below.\<close>

definition sample_booking :: "int Booking" where
  "sample_booking =
     \<lparr>created_at = ''2026-11-04T10:15:00'',
      customer_name = ''Ada'',
      phone = ''0412345678'',
      suburb = ''Carlton'',
      address = '''',
      bike_type = ''Road'',
      service_name = ''Safety Tune ($99)'',
      service_price = 99,
      addons = ''None'',
      addons_price = 0,
      travel_zone = ''Outside area (+$20 travel fee)'',
      travel_fee = 20,
      booking_date = ''2026-11-05'',
      booking_time = ''10:00'',
      booking_notes = '''',
      status = ''new''\<rparr>"

text \<open>A table holding the sample booking as its only row.\<close>

definition one_booking :: conn where
  "one_booking = apply_op get_conn (Create sample_booking)"

text \<open>The same table after a second booking, an hour later on the same day, with an
  add-on, and cancelled.\<close>

definition two_bookings :: conn where
  "two_bookings =
     apply_op one_booking
       (Create (sample_booking\<lparr>booking_time := ''11:00'', addons_price := 40,
          status := ''cancelled''\<rparr>))"

text \<open>A booking whose prices fit the columns one by one while their sum does not, the table
  holding it, and a date test that lets every row through.\<close>

definition big_booking :: "int Booking" where
  "big_booking = sample_booking\<lparr>service_price := 2 ^ 63 - 1, addons_price := 1, travel_fee := 0\<rparr>"

definition big_store :: conn where
  "big_store = apply_op get_conn (Create big_booking)"

definition every_date :: "string list \<Rightarrow> error + bool list" where
  "every_date ds = Inr (map (\<lambda>d. True) ds)"

text \<open>The slots of a work day under the settings, and two dates for the examples.\<close>

definition nine_slots :: "string list" where
  "nine_slots = [''09:00'', ''10:00'', ''11:00'', ''12:00'', ''13:00'', ''14:00'', ''15:00'',
                 ''16:00'', ''17:00'']"

definition a_sunday :: date where
  "a_sunday = \<lparr>year = 2026, month = 11, day = 8\<rparr>"

definition a_wednesday :: date where
  "a_wednesday = \<lparr>year = 2026, month = 11, day = 4\<rparr>"

text \<open>
  A third date, a clock reading of 14:30 on the Wednesday, and the last clock reading the
  \<^verbatim>\<open>datetime\<close> type can hold.
\<close>

definition a_thursday :: date where
  "a_thursday = \<lparr>year = 2026, month = 11, day = 5\<rparr>"

definition half_past_two :: datetime where
  "half_past_two = combine a_wednesday \<lparr>hour = 14, minute = 30\<rparr>"

definition last_microsecond :: datetime where
  "last_microsecond = (MAXORDINAL + 1) * US_PER_DAY - 1"

section \<open>Properties\<close>

subsection \<open>The booking store\<close>

lemma sint_int64: "int64_ok x \<Longrightarrow> sint (word_of_int x :: int64) = x"
  by (simp add: int64_ok_def sint_sbintrunc' signed_take_bit_int_eq_self)

lemma int64_ok_sint: "int64_ok (sint (w::int64))"
  using sint_ge [of w] sint_lt [of w] by (simp add: int64_ok_def)

lemma int64_of_sint: "word_of_int (sint (w::int64)) = w"
  by simp

lemma sint_sum3:
  fixes a b c :: int64
  assumes "int64_ok (sint a + sint b + sint c)"
  shows "sint (a + b + c) = sint a + sint b + sint c"
proof -
  have "a + b + c = word_of_int (sint a + sint b + sint c)"
    by (simp add: wi_hom_syms(1))
  then show ?thesis
    using sint_int64 [OF assms] by simp
qed

lemma update_status_Inr:
  "int64_ok bid \<Longrightarrow>
     update_status c bid s =
       Inr (c\<lparr>bookings :=
         map (\<lambda>r. if sint (rowid r) = bid then r\<lparr>status := s\<rparr> else r) (bookings c)\<rparr>)"
  by (simp add: update_status_def)


lemma slot_taken_iff:
  "slot_taken c d t \<longleftrightarrow>
     (\<exists>r \<in> set (bookings c). booking_date r = d \<and> booking_time r = t \<and> status r \<noteq> ''cancelled'')"
  by (auto simp add: slot_taken_def filter_empty_conv)




text \<open>
  Claim C8. For a booking with key \<open>bid\<close>, date \<open>d\<close> and time \<open>t\<close>:
  \<^verbatim>\<open>update_status(bid, "cancelled")\<close> returns, and after it the slot \<open>(d, t)\<close> is not
  taken, provided every other booking of that date and time is cancelled.
\<close>

theorem cancel_frees_slot:
  assumes "r \<in> set (bookings c)" and "sint (rowid r) = bid"
    and "booking_date r = d" and "booking_time r = t"
    and "\<forall>r' \<in> set (bookings c).
           sint (rowid r') \<noteq> bid \<and> booking_date r' = d \<and> booking_time r' = t \<longrightarrow>
           status r' = ''cancelled''"
  shows "\<exists>c'. update_status c bid ''cancelled'' = Inr c' \<and> \<not> slot_taken c' d t"
proof -
  have "int64_ok bid" using int64_ok_sint [of "rowid r"] assms(2) by simp
  note u = update_status_Inr [OF this, of c "''cancelled''"]
  have "\<not> slot_taken (c\<lparr>bookings :=
         map (\<lambda>r. if sint (rowid r) = bid then r\<lparr>status := ''cancelled''\<rparr> else r)
           (bookings c)\<rparr>) d t"
    using assms(5) by (auto simp add: slot_taken_iff)
  with u show ?thesis by blast
qed

theorem cancel_frees_slot_witness:
  "slot_taken one_booking ''2026-11-05'' ''10:00'' \<and>
   update_status one_booking 1 ''cancelled'' =
     Inr (projr (update_status one_booking 1 ''cancelled'')) \<and>
   \<not> slot_taken (projr (update_status one_booking 1 ''cancelled'')) ''2026-11-05'' ''10:00''"
proof -
  let ?r = "bookings one_booking ! 0"
  have a: "?r \<in> set (bookings one_booking)" by code_simp
  have b: "sint (rowid ?r) = 1" by code_simp
  have c: "booking_date ?r = ''2026-11-05''" by code_simp
  have d: "booking_time ?r = ''10:00''" by code_simp
  have e: "\<forall>r' \<in> set (bookings one_booking).
           sint (rowid r') \<noteq> 1 \<and> booking_date r' = ''2026-11-05'' \<and> booking_time r' = ''10:00'' \<longrightarrow>
           status r' = ''cancelled''"
    by code_simp
  have before: "slot_taken one_booking ''2026-11-05'' ''10:00''" by code_simp
  from before cancel_frees_slot [OF a b c d e] show ?thesis by auto
qed

lemma insert_booking_Inr:
  assumes "insert_booking c b = Inr c'"
  shows "int64_ok (service_price b) \<and> int64_ok (addons_price b) \<and> int64_ok (travel_fee b) \<and>
         int64_ok (next_rowid c)"
    and "\<exists>r. bookings c' = bookings c @ [r] \<and> sint (rowid r) = next_rowid c \<and>
           status r = status b"
proof -
  from assms show ok: "int64_ok (service_price b) \<and> int64_ok (addons_price b) \<and>
      int64_ok (travel_fee b) \<and> int64_ok (next_rowid c)"
    by (auto simp add: insert_booking_def split: if_splits)
  then have "sint (word_of_int (next_rowid c) :: int64) = next_rowid c"
    by (simp add: sint_int64)
  with assms ok show "\<exists>r. bookings c' = bookings c @ [r] \<and> sint (rowid r) = next_rowid c \<and>
           status r = status b"
    by (auto simp add: insert_booking_def split: if_splits)
qed


lemma statuses_ok_insert:
  assumes "statuses_ok c" and "status b \<in> set STATUSES" and "insert_booking c b = Inr c'"
  shows "statuses_ok c'"
  using insert_booking_Inr(2) [OF assms(3)] assms(1,2) by (auto simp add: statuses_ok_def)

lemma statuses_ok_update:
  assumes "statuses_ok c" and "s \<in> set STATUSES" and "update_status c bid s = Inr c'"
  shows "statuses_ok c'"
  using assms by (auto simp add: statuses_ok_def update_status_def list_all_iff split: if_splits)

lemma statuses_ok_apply_op:
  "statuses_ok c \<Longrightarrow> op_status_ok x \<Longrightarrow> statuses_ok (apply_op c x)"
  by (cases x) (auto split: sum.splits intro: statuses_ok_insert statuses_ok_update)

lemma statuses_ok_foldl:
  "statuses_ok c \<Longrightarrow> list_all op_status_ok ops \<Longrightarrow> statuses_ok (foldl apply_op c ops)"
  by (induction ops arbitrary: c) (simp_all add: statuses_ok_apply_op)

text \<open>
  Claim C2 as stated fails: the store writes whatever status it is given. After creating
  the sample booking, \<^verbatim>\<open>update_status(1, "bogus")\<close> leaves a row whose status is none of the
  four values.
\<close>

theorem status_invariant_counterexample:
  "status (bookings (run get_conn [Create sample_booking, UpdateStatus 1 ''bogus'']) ! 0)
     \<notin> set STATUSES"
  by code_simp

text \<open>
  Claim C2, amended. Starting from the empty table, after any sequence of create and
  updateStatus operations whose status arguments are among the four values (as the page
  script's two callers pass them), every persisted status is one of the four values.
\<close>

theorem status_invariant:
  assumes "list_all op_status_ok ops"
  shows "\<forall>r \<in> set (bookings (run get_conn ops)). status r \<in> set STATUSES"
proof -
  have "statuses_ok get_conn"
    by (simp add: statuses_ok_def get_conn_def)
  then have "statuses_ok (run get_conn ops)"
    unfolding run_def using assms by (rule statuses_ok_foldl)
  then show ?thesis
    by (simp add: statuses_ok_def list_all_iff)
qed

theorem status_invariant_witness:
  "status (bookings (run get_conn [Create sample_booking, UpdateStatus 1 ''cancelled'']) ! 0)
     \<in> set STATUSES \<and>
   bookings (run get_conn [Create sample_booking, UpdateStatus 1 ''cancelled'']) \<noteq> []"
proof -
  let ?ops = "[Create sample_booking, UpdateStatus 1 ''cancelled'']"
  have ok: "list_all op_status_ok ?ops"
    by (simp add: sample_booking_def STATUSES_def)
  have ne: "bookings (run get_conn ?ops) \<noteq> []"
    by code_simp
  then have "bookings (run get_conn ?ops) ! 0 \<in> set (bookings (run get_conn ?ops))"
    by simp
  with status_invariant [OF ok] ne show ?thesis by blast
qed

lemma set_fetch_bookings: "set (fetch_bookings c) = set (bookings c)"
  by (simp add: fetch_bookings_def)







subsection \<open>Listing\<close>

lemma mset_fetch_bookings: "mset (fetch_bookings c) = mset (bookings c)"
  by (simp add: fetch_bookings_def)

lemma fetch_bookings_keys_desc:
  "sorted_wrt (\<lambda>a b. order_key b \<le> order_key a) (fetch_bookings c)"
proof -
  have "sorted (map order_key (sort_key order_key (bookings c)))"
    by (rule sorted_sort_key)
  then have "sorted_wrt (\<lambda>a b. order_key a \<le> order_key b) (sort_key order_key (bookings c))"
    by (simp add: sorted_wrt_map)
  then show ?thesis
    by (simp add: fetch_bookings_def sorted_wrt_rev)
qed

lemma order_key_le:
  "order_key b \<le> order_key a \<Longrightarrow>
     booking_date b < booking_date a \<or>
     (booking_date b = booking_date a \<and> booking_time b \<le> booking_time a)"
  by (auto simp add: order_key_def less_eq_prod_def)

lemma fetch_bookings_newest_first:
  "sorted_wrt (\<lambda>a b. booking_date b < booking_date a \<or>
                  (booking_date b = booking_date a \<and> booking_time b \<le> booking_time a))
     (fetch_bookings c)"
  by (rule sorted_wrt_mono_rel [OF _ fetch_bookings_keys_desc]) (rule order_key_le)

lemma df_view_Inr:
  assumes "df_view status_filter date_mask df = Inr v"
  shows "\<exists>rows. set rows \<subseteq> set df \<and>
           v = map (\<lambda>r. (r, service_price r + addons_price r + travel_fee r)) rows"
proof -
  let ?v1 = "if status_filter \<noteq> [] then filter (\<lambda>r. status r \<in> set status_filter) df else df"
  from assms obtain keep where
    v: "v = map (\<lambda>r. (r, service_price r + addons_price r + travel_fee r))
              (map fst (filter snd (zip ?v1 keep)))"
    by (auto simp add: df_view_def Let_def split: sum.splits)
  have "set (map fst (filter snd (zip ?v1 keep))) \<subseteq> set ?v1"
    by (auto dest: set_zip_leftD)
  also have "\<dots> \<subseteq> set df" by auto
  finally show ?thesis using v by blast
qed

lemma zip_all_True: "map fst (filter snd (zip xs (map (\<lambda>x. True) xs))) = xs"
  by (induction xs) simp_all

lemma df_view_unfiltered:
  assumes "date_mask (map booking_date df) = Inr (map (\<lambda>r. True) df)"
  shows "df_view [] date_mask df =
           Inr (map (\<lambda>r. (r, service_price r + addons_price r + travel_fee r)) df)"
  using assms by (simp add: df_view_def zip_all_True)

text \<open>
  Claim C9 as stated fails for the total: the prices \<open>2^63 - 1\<close>, 1 and 0 are stored as
  they are, and the view shows their row with the total \<open>- 2^63\<close>, which is not their sum.
\<close>

theorem list_total_counterexample:
  "length (projr (df_view [] every_date (fetch_bookings big_store))) = 1 \<and>
   \<not> isl (df_view [] every_date (fetch_bookings big_store)) \<and>
   sint (snd (projr (df_view [] every_date (fetch_bookings big_store)) ! 0)) = - (2 ^ 63) \<and>
   sint (service_price (fst (projr (df_view [] every_date (fetch_bookings big_store)) ! 0))) +
   sint (addons_price (fst (projr (df_view [] every_date (fetch_bookings big_store)) ! 0))) +
   sint (travel_fee (fst (projr (df_view [] every_date (fetch_bookings big_store)) ! 0))) = 2 ^ 63"
  by code_simp

text \<open>
  Claim C9, amended. \<^verbatim>\<open>fetch_bookings\<close> returns the rows of the table, each as often as
  the table holds it, ordered by booking date descending and then by booking time
  descending. Whenever the page builds its view from that list, every row of the view is
  a row of the table paired with the 64-bit sum of its service price, add-on price and
  travel fee, which is their sum whenever that fits a 64-bit integer; the total is
  computed for the view and is no column of the table. With no status filter, the view
  holds every row in that order when the date test lets every row through, and building
  it raises when the date test raises.
\<close>

theorem list_newest_first_with_total:
  "mset (fetch_bookings c) = mset (bookings c) \<and>
   sorted_wrt (\<lambda>a b. booking_date b < booking_date a \<or>
                  (booking_date b = booking_date a \<and> booking_time b \<le> booking_time a))
     (fetch_bookings c) \<and>
   (df_view status_filter date_mask (fetch_bookings c) = Inr v \<longrightarrow>
      (\<forall>x \<in> set v.
         fst x \<in> set (bookings c) \<and>
         snd x = service_price (fst x) + addons_price (fst x) + travel_fee (fst x) \<and>
         (int64_ok (sint (service_price (fst x)) + sint (addons_price (fst x)) +
                    sint (travel_fee (fst x))) \<longrightarrow>
            sint (snd x) = sint (service_price (fst x)) + sint (addons_price (fst x)) +
                           sint (travel_fee (fst x))))) \<and>
   (date_mask (map booking_date (fetch_bookings c)) = Inr (map (\<lambda>r. True) (fetch_bookings c)) \<longrightarrow>
      (\<exists>w. df_view [] date_mask (fetch_bookings c) = Inr w \<and> map fst w = fetch_bookings c)) \<and>
   (date_mask (map booking_date (fetch_bookings c)) = Inl e \<longrightarrow>
      df_view [] date_mask (fetch_bookings c) = Inl e)"
proof -
  have raises: "df_view [] date_mask (fetch_bookings c) = Inl e"
    if "date_mask (map booking_date (fetch_bookings c)) = Inl e"
    using that by (simp add: df_view_def)
  have tot: "\<forall>x \<in> set v.
         fst x \<in> set (bookings c) \<and>
         snd x = service_price (fst x) + addons_price (fst x) + travel_fee (fst x) \<and>
         (int64_ok (sint (service_price (fst x)) + sint (addons_price (fst x)) +
                    sint (travel_fee (fst x))) \<longrightarrow>
            sint (snd x) = sint (service_price (fst x)) + sint (addons_price (fst x)) +
                           sint (travel_fee (fst x)))"
    if "df_view status_filter date_mask (fetch_bookings c) = Inr v"
  proof -
    from df_view_Inr [OF that] obtain rows where
      rows: "set rows \<subseteq> set (fetch_bookings c)"
        "v = map (\<lambda>r. (r, service_price r + addons_price r + travel_fee r)) rows"
      by blast
    show ?thesis
    proof
      fix x assume "x \<in> set v"
      with rows obtain r where r: "r \<in> set (bookings c)"
          "x = (r, service_price r + addons_price r + travel_fee r)"
        by (auto simp add: set_fetch_bookings)
      then show "fst x \<in> set (bookings c) \<and>
         snd x = service_price (fst x) + addons_price (fst x) + travel_fee (fst x) \<and>
         (int64_ok (sint (service_price (fst x)) + sint (addons_price (fst x)) +
                    sint (travel_fee (fst x))) \<longrightarrow>
            sint (snd x) = sint (service_price (fst x)) + sint (addons_price (fst x)) +
                           sint (travel_fee (fst x)))"
        by (simp add: sint_sum3)
    qed
  qed
  have all: "\<exists>w. df_view [] date_mask (fetch_bookings c) = Inr w \<and> map fst w = fetch_bookings c"
    if "date_mask (map booking_date (fetch_bookings c)) = Inr (map (\<lambda>r. True) (fetch_bookings c))"
    using that df_view_unfiltered [of date_mask "fetch_bookings c"] by (simp add: comp_def)
  from mset_fetch_bookings [of c] fetch_bookings_newest_first [of c] tot all raises
  show ?thesis by blast
qed

theorem list_newest_first_with_total_witness:
  "map booking_time (fetch_bookings two_bookings) = [''11:00'', ''10:00''] \<and>
   every_date (map booking_date (fetch_bookings two_bookings)) =
     Inr (map (\<lambda>r. True) (fetch_bookings two_bookings)) \<and>
   map (\<lambda>x. sint (rowid (fst x))) (projr (df_view [] every_date (fetch_bookings two_bookings)))
     = [2, 1] \<and>
   map (\<lambda>x. sint (snd x)) (projr (df_view [] every_date (fetch_bookings two_bookings)))
     = [159, 119] \<and>
   df_view [] every_date (fetch_bookings two_bookings) =
     Inr (projr (df_view [] every_date (fetch_bookings two_bookings)))"
proof -
  have a: "map booking_time (fetch_bookings two_bookings) = [''11:00'', ''10:00'']" by code_simp
  have b: "every_date (map booking_date (fetch_bookings two_bookings)) =
     Inr (map (\<lambda>r. True) (fetch_bookings two_bookings))"
    by (simp add: every_date_def)
  have c: "map (\<lambda>x. sint (rowid (fst x))) (projr (df_view [] every_date (fetch_bookings two_bookings)))
     = [2, 1]"
    by code_simp
  have d: "map (\<lambda>x. sint (snd x)) (projr (df_view [] every_date (fetch_bookings two_bookings)))
     = [159, 119]"
    by code_simp
  from list_newest_first_with_total [where c = two_bookings and status_filter = "[]"
      and date_mask = every_date
      and v = "projr (df_view [] every_date (fetch_bookings two_bookings))"] a b c d
  show ?thesis by auto
qed

subsection \<open>Calendar arithmetic\<close>

lemma div_le_iff_less_mult:
  fixes x k m :: int
  assumes "0 < k"
  shows "x div k \<le> m \<longleftrightarrow> x < (m + 1) * k"
proof
  assume le: "x div k \<le> m"
  have "x = k * (x div k) + x mod k" by simp
  moreover have "x mod k < k" using assms by simp
  ultimately have "x < k * (x div k) + k" by linarith
  also have "\<dots> = k * (x div k + 1)" by (simp add: algebra_simps)
  also have "\<dots> \<le> k * (m + 1)" using le assms by (simp add: mult_left_mono)
  finally show "x < (m + 1) * k" by (simp add: mult.commute)
next
  assume lt: "x < (m + 1) * k"
  show "x div k \<le> m"
  proof (rule ccontr)
    assume "\<not> x div k \<le> m"
    then have "m + 1 \<le> x div k" by simp
    then have "k * (m + 1) \<le> k * (x div k)" using assms by (simp add: mult_left_mono)
    moreover have "k * (x div k) \<le> x"
    proof -
      have "x = k * (x div k) + x mod k" by simp
      moreover have "0 \<le> x mod k" using assms by simp
      ultimately show ?thesis by linarith
    qed
    ultimately show False using lt by (simp add: mult.commute)
  qed
qed

lemma dt_add_valid:
  "dt_add dt delta = (if valid_datetime (dt + delta) then Inr (dt + delta) else Inl OverflowError)"
proof -
  have pos: "(0::int) < US_PER_DAY" by (simp add: US_PER_DAY_def)
  have "0 < (dt + delta) div US_PER_DAY \<longleftrightarrow> US_PER_DAY \<le> dt + delta"
    using pos by (rule pos_imp_zdiv_pos_iff)
  moreover have "(dt + delta) div US_PER_DAY \<le> MAXORDINAL \<longleftrightarrow> dt + delta < (MAXORDINAL + 1) * US_PER_DAY"
    using pos by (rule div_le_iff_less_mult)
  ultimately show ?thesis
    by (simp add: dt_add_def Let_def valid_datetime_def)
qed

lemma div_step:
  fixes y k :: int
  assumes "0 < k"
  shows "y div k = (y - 1) div k + (if y mod k = 0 then 1 else 0)"
proof (cases "y mod k = 0")
  case True
  have "y = k * (y div k) + y mod k" by simp
  with True have "y - 1 = k * (y div k - 1) + (k - 1)" by (simp add: algebra_simps)
  then have "(y - 1) div k = y div k - 1"
    by (rule int_div_pos_eq) (use assms in simp_all)
  with True show ?thesis by simp
next
  case False
  have "0 \<le> y mod k" "y mod k < k" using assms by simp_all
  with False have r: "0 \<le> y mod k - 1" "y mod k - 1 < k" by simp_all
  have "y = k * (y div k) + y mod k" by simp
  then have "y - 1 = k * (y div k) + (y mod k - 1)" by simp
  then have "(y - 1) div k = y div k"
    using r by (rule int_div_pos_eq)
  with False show ?thesis by simp
qed

lemma dvd_chain:
  fixes y :: int
  shows "y mod 400 = 0 \<Longrightarrow> y mod 100 = 0" and "y mod 100 = 0 \<Longrightarrow> y mod 4 = 0"
proof -
  have a: "(100::int) dvd 400" and b: "(4::int) dvd 100" by simp_all
  show "y mod 400 = 0 \<Longrightarrow> y mod 100 = 0"
    using dvd_trans [OF a, of y] by (simp add: mod_eq_0_iff_dvd)
  show "y mod 100 = 0 \<Longrightarrow> y mod 4 = 0"
    using dvd_trans [OF b, of y] by (simp add: mod_eq_0_iff_dvd)
qed

lemma days_before_year_Suc:
  "days_before_year (y + 1) = days_before_year y + (if is_leap y then 366 else 365)"
proof -
  define a where "a = (y - 1) div 4"
  define b where "b = (y - 1) div 100"
  define c where "c = (y - 1) div 400"
  have s4: "y div 4 = a + (if y mod 4 = 0 then 1 else 0)"
    unfolding a_def by (rule div_step) simp
  have s100: "y div 100 = b + (if y mod 100 = 0 then 1 else 0)"
    unfolding b_def by (rule div_step) simp
  have s400: "y div 400 = c + (if y mod 400 = 0 then 1 else 0)"
    unfolding c_def by (rule div_step) simp
  have lhs: "days_before_year (y + 1) = y * 365 + y div 4 - y div 100 + y div 400"
    by (simp add: days_before_year_def)
  have rhs: "days_before_year y = (y - 1) * 365 + a - b + c"
    by (simp add: days_before_year_def Let_def a_def b_def c_def)
  have eq: "days_before_year (y + 1) - days_before_year y =
      365 + (if y mod 4 = 0 then 1 else 0) - (if y mod 100 = 0 then 1 else 0)
          + (if y mod 400 = 0 then 1 else 0)"
    unfolding lhs rhs s4 s100 s400 by (simp only: if_distrib) (simp add: algebra_simps)
  note ch = dvd_chain [of y]
  have "days_before_year (y + 1) - days_before_year y = (if is_leap y then 366 else 365)"
  proof (cases "y mod 400 = 0")
    case True
    moreover from True have "y mod 100 = 0" by (rule ch(1))
    moreover from this have "y mod 4 = 0" by (rule ch(2))
    ultimately show ?thesis
      unfolding eq is_leap_def by (simp only: if_True simp_thms; simp)
  next
    case n400: False
    show ?thesis
    proof (cases "y mod 100 = 0")
      case True
      moreover from True have "y mod 4 = 0" by (rule ch(2))
      ultimately show ?thesis
        using n400 unfolding eq is_leap_def by (simp only: if_False if_True simp_thms; simp)
    next
      case n100: False
      show ?thesis
      proof (cases "y mod 4 = 0")
        case True
        with n400 n100 show ?thesis
          unfolding eq is_leap_def by (simp only: if_False if_True simp_thms; simp)
      next
        case False
        with n400 n100 show ?thesis
          unfolding eq is_leap_def by (simp only: if_False if_True simp_thms; simp)
      qed
    qed
  qed
  then show ?thesis by linarith
qed

lemma days_before_year_mono_nat:
  "days_before_year y \<le> days_before_year (y + int n)"
proof (induction n)
  case 0
  then show ?case by simp
next
  case (Suc n)
  have "days_before_year (y + int n) \<le> days_before_year ((y + int n) + 1)"
    by (simp add: days_before_year_Suc)
  moreover have "y + int (Suc n) = (y + int n) + 1" by simp
  ultimately show ?case using Suc by (simp only: order_trans)
qed

lemma days_before_year_mono:
  assumes "y \<le> z"
  shows "days_before_year y \<le> days_before_year z"
  using days_before_year_mono_nat [of y "nat (z - y)"] assms by simp

lemma days_before_month_bounds:
  assumes "1 \<le> m" "m \<le> 12" "1 \<le> d" "d \<le> days_in_month y m"
  shows "1 \<le> days_before_month y m + d \<and>
         days_before_month y m + d \<le> (if is_leap y then 366 else 365)"
proof -
  from assms(1,2)
  have "m = 1 \<or> m = 2 \<or> m = 3 \<or> m = 4 \<or> m = 5 \<or> m = 6 \<or>
        m = 7 \<or> m = 8 \<or> m = 9 \<or> m = 10 \<or> m = 11 \<or> m = 12"
    by arith
  then show ?thesis
    using assms(3,4)
    by (elim disjE)
       (simp_all add: days_before_month_def days_in_month_def DAYS_IN_MONTH_def split: if_splits)
qed

lemma toordinal_bounds:
  assumes "valid_date d"
  shows "1 \<le> toordinal d" and "toordinal d \<le> MAXORDINAL"
proof -
  from assms have y: "1 \<le> year d" "year d \<le> 9999"
    and md: "1 \<le> month d" "month d \<le> 12" "1 \<le> day d"
            "day d \<le> days_in_month (year d) (month d)"
    by (simp_all add: valid_date_def)
  note b = days_before_month_bounds [OF md]
  have lo: "days_before_year 1 \<le> days_before_year (year d)"
    using y(1) by (rule days_before_year_mono)
  have "days_before_year 1 = 0" by (simp add: days_before_year_def)
  with lo b show "1 \<le> toordinal d" by (simp add: toordinal_def)
  have "days_before_year (year d + 1) \<le> days_before_year 10000"
    using y(2) by (intro days_before_year_mono) simp
  moreover have "days_before_year 10000 = 3652059" by (simp add: days_before_year_def)
  ultimately have "days_before_year (year d) + (if is_leap (year d) then 366 else 365) \<le> 3652059"
    by (simp add: days_before_year_Suc)
  with b show "toordinal d \<le> MAXORDINAL"
    by (simp add: toordinal_def MAXORDINAL_def split: if_splits)
qed

lemma dt_time_of_parts:
  assumes "0 \<le> h" "h \<le> 23" "0 \<le> m" "m \<le> 59" "0 \<le> e" "e < US_PER_MINUTE"
  shows "dt_time (n * US_PER_DAY + h * US_PER_HOUR + m * US_PER_MINUTE + e) = \<lparr>hour = h, minute = m\<rparr>"
proof -
  let ?x = "n * 86400000000 + h * 3600000000 + m * 60000000 + e"
  from assms have e: "0 \<le> e" "e < 60000000" by (simp_all add: US_PER_MINUTE_def)
  have f1: "?x mod 86400000000 = h * 3600000000 + m * 60000000 + e"
    by (rule int_mod_pos_eq [where q = n]) (use assms(1-4) e in simp_all)
  have f2: "(h * 3600000000 + m * 60000000 + e) div 3600000000 = h"
    by (rule int_div_pos_eq [where r = "m * 60000000 + e"]) (use assms(1-4) e in simp_all)
  have f3: "?x mod 3600000000 = m * 60000000 + e"
    by (rule int_mod_pos_eq [where q = "n * 24 + h"]) (use assms(1-4) e in simp_all)
  have f4: "(m * 60000000 + e) div 60000000 = m"
    by (rule int_div_pos_eq [where r = e]) (use assms(1-4) e in simp_all)
  show ?thesis
    by (simp only: dt_time_def US_PER_DAY_def US_PER_HOUR_def US_PER_MINUTE_def f1 f2 f3 f4)
qed

subsection \<open>The slot loop\<close>

lemma dt_add_Inr:
  "US_PER_DAY \<le> dt + delta \<Longrightarrow> dt + delta < (MAXORDINAL + 1) * US_PER_DAY \<Longrightarrow>
     dt_add dt delta = Inr (dt + delta)"
  by (simp add: dt_add_valid valid_datetime_def)

lemma slots_loop_stop:
  assumes "dt_add dt (timedelta_minutes step) = Inr nxt" and "\<not> nxt \<le> end_dt"
  shows "slots_loop step end_dt dt slots = Some (Inr slots)"
  using assms by (subst slots_loop.simps) simp

lemma slots_loop_step:
  assumes "dt_add dt (timedelta_minutes step) = Inr nxt" and "nxt \<le> end_dt"
  shows "slots_loop step end_dt dt slots =
           slots_loop step end_dt nxt (slots @ [strftime_HM (dt_time dt)])"
  using assms by (subst slots_loop.simps) simp

lemma slots_loop_raise:
  assumes "dt_add dt (timedelta_minutes step) = Inl e"
  shows "slots_loop step end_dt dt slots = Some (Inl e)"
  using assms by (subst slots_loop.simps) simp

lemma map_upt_Suc_shift:
  "map f [0..<Suc n] = f 0 # map (\<lambda>k. f (Suc k)) [0..<n]"
  by (simp only: upt_conv_Cons [of 0 "Suc n"] map_Suc_upt [symmetric] list.map map_map comp_def; simp)

lemma slots_loop_result:
  assumes "0 < step"
    and "US_PER_DAY \<le> dt"
    and "dt + timedelta_minutes step < (MAXORDINAL + 1) * US_PER_DAY"
    and "end_dt + timedelta_minutes step < (MAXORDINAL + 1) * US_PER_DAY"
  shows "slots_loop step end_dt dt slots =
           Some (Inr (slots @
             map (\<lambda>k. strftime_HM (dt_time (dt + int k * timedelta_minutes step)))
               [0..<nat ((end_dt - dt) div timedelta_minutes step)]))"
  using assms(2,3)
proof (induction "nat ((end_dt - dt) div timedelta_minutes step)" arbitrary: dt slots)
  case 0
  let ?s = "timedelta_minutes step"
  have s: "0 < ?s" using assms(1) by (simp add: timedelta_minutes_def US_PER_MINUTE_def)
  from 0 have "(end_dt - dt) div ?s \<le> 0" by simp
  then have "end_dt - dt < (0 + 1) * ?s" using s by (simp only: div_le_iff_less_mult)
  then have gt: "\<not> dt + ?s \<le> end_dt" by simp
  have add: "dt_add dt ?s = Inr (dt + ?s)"
    using 0(2,3) s by (intro dt_add_Inr) simp_all
  from 0(1) [symmetric] show ?case
    by (simp add: slots_loop_stop [OF add gt])
next
  case (Suc n)
  let ?s = "timedelta_minutes step"
  have s: "0 < ?s" using assms(1) by (simp add: timedelta_minutes_def US_PER_MINUTE_def)
  from Suc(2) have "0 < (end_dt - dt) div ?s" by simp
  then have "?s \<le> end_dt - dt" using s by (simp only: pos_imp_zdiv_pos_iff)
  then have le: "dt + ?s \<le> end_dt" by simp
  have add: "dt_add dt ?s = Inr (dt + ?s)"
    using Suc(3,4) s by (intro dt_add_Inr) simp_all
  have "(end_dt - dt) div ?s = (end_dt - (dt + ?s) + ?s) div ?s" by simp
  also have "\<dots> = (end_dt - (dt + ?s)) div ?s + 1" using s by (simp only: div_add_self2; simp)
  finally have n: "n = nat ((end_dt - (dt + ?s)) div ?s)" using Suc(2) by simp
  have lo: "US_PER_DAY \<le> dt + ?s" using Suc(3) s by simp
  have hi: "dt + ?s + ?s < (MAXORDINAL + 1) * US_PER_DAY" using le assms(4) by simp
  have shift: "\<And>k. dt + ?s + int k * ?s = dt + int (Suc k) * ?s"
    by (simp add: algebra_simps)
  have "slots_loop step end_dt dt slots =
          slots_loop step end_dt (dt + ?s) (slots @ [strftime_HM (dt_time dt)])"
    by (rule slots_loop_step [OF add le])
  also have "\<dots> = Some (Inr ((slots @ [strftime_HM (dt_time dt)]) @
             map (\<lambda>k. strftime_HM (dt_time (dt + ?s + int k * ?s))) [0..<n]))"
    unfolding n by (rule Suc(1) [OF n lo hi])
  also have "(slots @ [strftime_HM (dt_time dt)]) @
             map (\<lambda>k. strftime_HM (dt_time (dt + ?s + int k * ?s))) [0..<n] =
           slots @ map (\<lambda>k. strftime_HM (dt_time (dt + int k * ?s))) [0..<Suc n]"
    unfolding shift by (simp add: map_upt_Suc_shift del: upt_Suc)
  finally show ?case unfolding Suc(2) [symmetric] .
qed

subsection \<open>The slot generator\<close>

lemma weekday_range: "0 \<le> weekday d \<and> weekday d \<le> 6"
  by (simp add: weekday_def)

lemma work_day_iff: "weekday d \<in> WORK_DAYS \<longleftrightarrow> weekday d \<noteq> 6"
  using weekday_range [of d] by (auto simp add: WORK_DAYS_def)

lemma upt_9: "[0..<9] = [0, 1, 2, 3, 4, 5, 6, 7, 8::nat]"
  by code_simp

lemma label_of_hour:
  assumes "0 \<le> h" "h \<le> 23"
  shows "dt_time (n * US_PER_DAY + h * US_PER_HOUR) = \<lparr>hour = h, minute = 0\<rparr>"
  using dt_time_of_parts [of h 0 0 n] assms by (simp add: US_PER_MINUTE_def)

lemma nine_labels:
  "map (\<lambda>k. strftime_HM \<lparr>hour = 9 + int k, minute = 0\<rparr>) [0, 1, 2, 3, 4, 5, 6, 7, 8] = nine_slots"
  by (simp add: strftime_HM_def zfill_def digit_char_def nine_slots_def dec.simps)

lemma generate_slots_work_day:
  assumes "valid_date d" and "weekday d \<in> WORK_DAYS"
  shows "generate_slots d = Some (Inr nine_slots)"
proof -
  define n where "n = toordinal d"
  from toordinal_bounds [OF assms(1)] have n: "1 \<le> n" "n \<le> 3652059"
    by (simp_all add: n_def MAXORDINAL_def)
  have start: "combine d DAY_START = n * US_PER_DAY + 9 * US_PER_HOUR"
    by (simp add: combine_def DAY_START_def n_def)
  have stop: "combine d DAY_END = n * US_PER_DAY + 18 * US_PER_HOUR"
    by (simp add: combine_def DAY_END_def n_def)
  have step: "timedelta_minutes SLOT_MINUTES = US_PER_HOUR"
    by (simp add: timedelta_minutes_def SLOT_MINUTES_def US_PER_MINUTE_def US_PER_HOUR_def)
  have count: "nat ((combine d DAY_END - combine d DAY_START) div timedelta_minutes SLOT_MINUTES) = 9"
    unfolding start stop step by (simp add: US_PER_HOUR_def)
  have lab: "strftime_HM (dt_time (combine d DAY_START + int k * timedelta_minutes SLOT_MINUTES)) =
             strftime_HM \<lparr>hour = 9 + int k, minute = 0\<rparr>" if "k \<in> set [0..<9]" for k
  proof -
    from that have k: "int k \<le> 8" by simp
    have "combine d DAY_START + int k * timedelta_minutes SLOT_MINUTES =
          n * US_PER_DAY + (9 + int k) * US_PER_HOUR"
      unfolding start step by (simp add: algebra_simps)
    moreover have "dt_time (n * US_PER_DAY + (9 + int k) * US_PER_HOUR) = \<lparr>hour = 9 + int k, minute = 0\<rparr>"
      using k by (intro label_of_hour) simp_all
    ultimately show ?thesis by simp
  qed
  have "slots_loop SLOT_MINUTES (combine d DAY_END) (combine d DAY_START) [] =
        Some (Inr ([] @ map (\<lambda>k. strftime_HM (dt_time (combine d DAY_START + int k * timedelta_minutes SLOT_MINUTES)))
          [0..<nat ((combine d DAY_END - combine d DAY_START) div timedelta_minutes SLOT_MINUTES)]))"
  proof (rule slots_loop_result)
    show "0 < SLOT_MINUTES" by (simp add: SLOT_MINUTES_def)
    show "US_PER_DAY \<le> combine d DAY_START"
      unfolding start using n by (simp add: US_PER_DAY_def US_PER_HOUR_def)
    show "combine d DAY_START + timedelta_minutes SLOT_MINUTES < (MAXORDINAL + 1) * US_PER_DAY"
      unfolding start step using n by (simp add: US_PER_DAY_def US_PER_HOUR_def MAXORDINAL_def)
    show "combine d DAY_END + timedelta_minutes SLOT_MINUTES < (MAXORDINAL + 1) * US_PER_DAY"
      unfolding stop step using n by (simp add: US_PER_DAY_def US_PER_HOUR_def MAXORDINAL_def)
  qed
  also have "map (\<lambda>k. strftime_HM (dt_time (combine d DAY_START + int k * timedelta_minutes SLOT_MINUTES)))
          [0..<nat ((combine d DAY_END - combine d DAY_START) div timedelta_minutes SLOT_MINUTES)] =
        map (\<lambda>k. strftime_HM \<lparr>hour = 9 + int k, minute = 0\<rparr>) [0..<9]"
    unfolding count by (rule map_cong [OF refl lab])
  also have "\<dots> = nine_slots"
    unfolding upt_9 by (rule nine_labels)
  finally show ?thesis
    using assms(2) by (simp add: generate_slots_def)
qed

text \<open>
  Claim C6. For every date whose weekday is not in the work-day set, the slot generator
  returns the empty list; with the set Monday to Saturday these are the Sundays.
\<close>

theorem no_slots_outside_work_days:
  "(weekday d \<notin> WORK_DAYS \<longrightarrow> generate_slots d = Some (Inr [])) \<and>
   (weekday d \<notin> WORK_DAYS \<longleftrightarrow> weekday d = 6)"
proof -
  have "weekday d \<notin> WORK_DAYS \<longrightarrow> generate_slots d = Some (Inr [])"
    by (simp add: generate_slots_def)
  moreover have "weekday d \<notin> WORK_DAYS \<longleftrightarrow> weekday d = 6"
    by (simp add: work_day_iff)
  ultimately show ?thesis by blast
qed

theorem no_slots_outside_work_days_witness:
  "weekday a_sunday = 6 \<and> generate_slots a_sunday = Some (Inr [])"
proof -
  have "weekday a_sunday = 6"
    by (simp add: a_sunday_def weekday_def toordinal_def days_before_year_def
        days_before_month_def DAYS_IN_MONTH_def is_leap_def)
  with no_slots_outside_work_days [of a_sunday] show ?thesis by simp
qed

text \<open>
  Claim C7. For every date of the calendar whose weekday is in the work-day set, the slot
  generator returns exactly the nine labels from 09:00 to 17:00. In general the loop,
  run with a positive step from \<open>dt\<close> to \<open>end_dt\<close> (and no sum leaving the range of
  datetimes), returns the labels of \<open>dt\<close>, \<open>dt + step\<close>, \<open>dt + 2 step\<close>, ..., as many as
  the step fits into \<open>end_dt - dt\<close>: a slot is listed exactly when its end does not pass
  \<open>end_dt\<close>, so a last partial slot is dropped.
\<close>

theorem work_day_slots:
  "(valid_date d \<and> weekday d \<in> WORK_DAYS \<longrightarrow>
      generate_slots d =
        Some (Inr [''09:00'', ''10:00'', ''11:00'', ''12:00'', ''13:00'', ''14:00'', ''15:00'',
                   ''16:00'', ''17:00''])) \<and>
   (0 < step \<and> US_PER_DAY \<le> dt \<and>
    dt + timedelta_minutes step < (MAXORDINAL + 1) * US_PER_DAY \<and>
    end_dt + timedelta_minutes step < (MAXORDINAL + 1) * US_PER_DAY \<longrightarrow>
      slots_loop step end_dt dt [] =
        Some (Inr (map (\<lambda>k. strftime_HM (dt_time (dt + int k * timedelta_minutes step)))
                     [0..<nat ((end_dt - dt) div timedelta_minutes step)])))"
  using generate_slots_work_day [of d] slots_loop_result [of step dt end_dt "[]"]
  by (simp add: nine_slots_def)

lemma a_wednesday_valid: "valid_date a_wednesday"
  by (simp add: a_wednesday_def valid_date_def days_in_month_def DAYS_IN_MONTH_def)

lemma a_wednesday_ordinal: "toordinal a_wednesday = 739924"
  by (simp add: a_wednesday_def toordinal_def days_before_year_def
      days_before_month_def DAYS_IN_MONTH_def is_leap_def)

lemma a_wednesday_weekday: "weekday a_wednesday = 2"
  by (simp add: weekday_def a_wednesday_ordinal)

theorem work_day_slots_witness:
  "valid_date a_wednesday \<and> weekday a_wednesday = 2 \<and>
   generate_slots a_wednesday =
     Some (Inr [''09:00'', ''10:00'', ''11:00'', ''12:00'', ''13:00'', ''14:00'', ''15:00'',
                ''16:00'', ''17:00'']) \<and>
   slots_loop 45 (combine a_wednesday \<lparr>hour = 11, minute = 30\<rparr>) (combine a_wednesday DAY_START) [] =
     Some (Inr [''09:00'', ''09:45'', ''10:30''])"
proof -
  let ?dt = "combine a_wednesday DAY_START"
  let ?end = "combine a_wednesday \<lparr>hour = 11, minute = 30\<rparr>"
  have w: "weekday a_wednesday \<in> WORK_DAYS"
    by (simp add: a_wednesday_weekday WORK_DAYS_def)
  have g: "(0::int) < 45 \<and> US_PER_DAY \<le> ?dt \<and>
      ?dt + timedelta_minutes 45 < (MAXORDINAL + 1) * US_PER_DAY \<and>
      ?end + timedelta_minutes 45 < (MAXORDINAL + 1) * US_PER_DAY"
    by (simp add: combine_def a_wednesday_ordinal DAY_START_def timedelta_minutes_def
        US_PER_DAY_def US_PER_HOUR_def US_PER_MINUTE_def MAXORDINAL_def)
  have r: "map (\<lambda>k. strftime_HM (dt_time (?dt + int k * timedelta_minutes 45)))
             [0..<nat ((?end - ?dt) div timedelta_minutes 45)] =
           [''09:00'', ''09:45'', ''10:30'']"
    by code_simp
  from work_day_slots [of a_wednesday 45 ?dt ?end] a_wednesday_valid a_wednesday_weekday w g r
  show ?thesis by simp
qed

subsection \<open>Labels and the lead-time check\<close>

lemma upt_10: "[0..<10] = [0, 1, 2, 3, 4, 5, 6, 7, 8, 9::nat]"
  by code_simp

lemma digit_cases:
  assumes "k < (10::nat)"
  shows "k \<in> {0, 1, 2, 3, 4, 5, 6, 7, 8, 9}"
proof -
  from assms have "k \<in> set [0..<10]" by simp
  then show ?thesis unfolding upt_10 by simp
qed

lemma digit_char_props:
  assumes "k < 10"
  shows "is_digit (digit_char k)" and "digit_val (digit_char k) = int k"
    and "\<not> is_space (digit_char k)" and "digit_char k \<noteq> CHR '':''"
    and "digit_char k \<noteq> CHR ''-''" and "digit_char k \<noteq> CHR ''+''"
    and "digit_char k \<noteq> CHR ''_''"
  using digit_cases [OF assms]
  by (auto simp add: digit_char_def is_digit_def digit_val_def is_space_def)

lemma dec_small: "n < 10 \<Longrightarrow> dec n = [digit_char n]"
  by (subst dec.simps) simp

lemma dec_large: "\<not> n < 10 \<Longrightarrow> dec n = dec (n div 10) @ [digit_char (n mod 10)]"
  by (subst dec.simps) simp

lemma two_digits:
  assumes "n < 100"
  shows "zfill 2 (dec n) = [digit_char (n div 10), digit_char (n mod 10)]"
proof (cases "n < 10")
  case True
  then show ?thesis by (simp add: zfill_def digit_char_def dec_small)
next
  case False
  with assms have "n div 10 < 10" by simp
  then have "dec (n div 10) = [digit_char (n div 10)]" by (rule dec_small)
  with False show ?thesis by (simp add: zfill_def dec_large)
qed

lemma py_int_two_digits:
  assumes "a < 10" "b < 10"
  shows "py_int [digit_char a, digit_char b] = Some (int a * 10 + int b)"
  using digit_char_props [OF assms(1)] digit_char_props [OF assms(2)]
  by (simp add: py_int_def strip_def literal_value_def INT_MAX_STR_DIGITS_def)

lemma py_int_zfill:
  assumes "n < 100"
  shows "py_int (zfill 2 (dec n)) = Some (int n)"
proof -
  have "n div 10 < 10" "n mod 10 < 10" using assms by simp_all
  from py_int_two_digits [OF this] show ?thesis
    by (simp add: two_digits [OF assms] zdiv_int zmod_int)
qed

lemma split_on_label:
  assumes "a < 100" "b < 100"
  shows "split_on (CHR '':'') (zfill 2 (dec a) @ '':'' @ zfill 2 (dec b)) =
           [zfill 2 (dec a), zfill 2 (dec b)]"
proof -
  have a: "a div 10 < 10" "a mod 10 < 10" and b: "b div 10 < 10" "b mod 10 < 10"
    using assms by simp_all
  show ?thesis
    using digit_char_props(4) [OF a(1)] digit_char_props(4) [OF a(2)]
      digit_char_props(4) [OF b(1)] digit_char_props(4) [OF b(2)]
    by (simp add: two_digits [OF assms(1)] two_digits [OF assms(2)])
qed

lemma chosen_dt_label:
  assumes "0 \<le> h" "h \<le> 23" "0 \<le> m" "m \<le> 59"
  shows "chosen_dt d (strftime_HM \<lparr>hour = h, minute = m\<rparr>) = Some (combine d \<lparr>hour = h, minute = m\<rparr>)"
proof -
  have h: "nat h < 100" and m: "nat m < 100" using assms by simp_all
  have "py_int (zfill 2 (dec (nat h))) = Some h" "py_int (zfill 2 (dec (nat m))) = Some m"
    using py_int_zfill [OF h] py_int_zfill [OF m] assms by simp_all
  moreover have "split_on (CHR '':'') (strftime_HM \<lparr>hour = h, minute = m\<rparr>) =
      [zfill 2 (dec (nat h)), zfill 2 (dec (nat m))]"
    unfolding strftime_HM_def by (simp only: time.select_convs split_on_label [OF h m])
  ultimately show ?thesis
    using assms by (simp add: chosen_dt_def py_time_def)
qed

lemma lead_time_ok_malformed:
  "chosen_dt d s = None \<Longrightarrow> lead_time_ok d s now = Inr True"
  by (simp add: lead_time_ok_def)

lemma lead_time_ok_parsed:
  assumes "chosen_dt d s = Some cdt"
    and "valid_datetime (now + timedelta_minutes MIN_LEAD_TIME_MINUTES)"
  shows "lead_time_ok d s now = Inr (now + timedelta_minutes MIN_LEAD_TIME_MINUTES \<le> cdt)"
  using assms by (simp add: lead_time_ok_def dt_add_valid)

lemma lead_time_ok_total:
  assumes "valid_datetime (now + timedelta_minutes MIN_LEAD_TIME_MINUTES)"
  shows "lead_time_ok d s now =
           Inr (case chosen_dt d s of None \<Rightarrow> True
                | Some cdt \<Rightarrow> now + timedelta_minutes MIN_LEAD_TIME_MINUTES \<le> cdt)"
  using assms by (simp add: lead_time_ok_def dt_add_valid split: option.splits)

lemma filter_raising_total:
  "(\<And>x. x \<in> set xs \<Longrightarrow> p x = Inr (q x)) \<Longrightarrow> filter_raising p xs = Inr (filter q xs)"
  by (induction xs) simp_all

lemma filter_raising_Inr:
  "filter_raising p xs = Inr ys \<Longrightarrow> ys = filter (\<lambda>x. p x = Inr True) xs"
proof (induction xs arbitrary: ys)
  case Nil
  then show ?case by simp
next
  case (Cons x xs)
  then show ?case
    by (auto split: sum.splits if_splits)
qed

lemma free_slots_subset:
  assumes "free_slots c bday slots now = Inr xs"
  shows "set xs \<subseteq> {s \<in> set slots. \<not> slot_taken c (isoformat bday) s}"
proof (cases "MIN_LEAD_TIME_MINUTES > 0")
  case True
  with assms have "filter_raising (\<lambda>s. lead_time_ok bday s now)
      (filter (\<lambda>s. \<not> slot_taken c (isoformat bday) s) slots) = Inr xs"
    by (simp add: free_slots_def)
  from filter_raising_Inr [OF this] show ?thesis by auto
next
  case False
  with assms show ?thesis by (auto simp add: free_slots_def)
qed

lemma free_slots_total:
  assumes "valid_datetime (now + timedelta_minutes MIN_LEAD_TIME_MINUTES)"
  shows "free_slots c bday slots now =
           Inr (filter (\<lambda>s. \<not> slot_taken c (isoformat bday) s \<and>
                  (case chosen_dt bday s of None \<Rightarrow> True
                   | Some cdt \<Rightarrow> now + timedelta_minutes MIN_LEAD_TIME_MINUTES \<le> cdt)) slots)"
proof -
  have "filter_raising (\<lambda>s. lead_time_ok bday s now)
          (filter (\<lambda>s. \<not> slot_taken c (isoformat bday) s) slots) =
        Inr (filter (\<lambda>s. case chosen_dt bday s of None \<Rightarrow> True
                   | Some cdt \<Rightarrow> now + timedelta_minutes MIN_LEAD_TIME_MINUTES \<le> cdt)
               (filter (\<lambda>s. \<not> slot_taken c (isoformat bday) s) slots))"
    by (rule filter_raising_total) (rule lead_time_ok_total [OF assms])
  then show ?thesis
    by (simp add: free_slots_def MIN_LEAD_TIME_MINUTES_def conj_commute)
qed

subsection \<open>The availability filter\<close>

lemma chosen_dt_None_iff:
  "chosen_dt d s = None \<longleftrightarrow>
     \<not> (\<exists>hh mm h m. split_on (CHR '':'') s = [hh, mm] \<and> py_int hh = Some h \<and>
          py_int mm = Some m \<and> 0 \<le> h \<and> h \<le> 23 \<and> 0 \<le> m \<and> m \<le> 59)"
  by (auto simp add: chosen_dt_def py_time_def split: list.splits option.splits if_splits)

text \<open>
  Claim C5. For every date, every clock reading and every string on which the body of
  the \<^verbatim>\<open>try\<close> raises, \<^verbatim>\<open>lead_time_ok\<close> returns \<^verbatim>\<open>True\<close> and raises nothing. The body
  raises exactly when the string does not split at colons into two pieces that
  \<^verbatim>\<open>int\<close> reads as an hour in \<open>0..23\<close> and a minute in \<open>0..59\<close>.
\<close>

theorem malformed_label_tolerated:
  "(chosen_dt d s = None \<longrightarrow> lead_time_ok d s now = Inr True) \<and>
   (chosen_dt d s = None \<longleftrightarrow>
     \<not> (\<exists>hh mm h m. split_on (CHR '':'') s = [hh, mm] \<and> py_int hh = Some h \<and>
          py_int mm = Some m \<and> 0 \<le> h \<and> h \<le> 23 \<and> 0 \<le> m \<and> m \<le> 59))"
  using lead_time_ok_malformed [of d s now] chosen_dt_None_iff [of d s] by blast

theorem malformed_label_tolerated_witness:
  "chosen_dt a_wednesday ''25:00'' = None \<and>
   lead_time_ok a_wednesday ''25:00'' last_microsecond = Inr True \<and>
   chosen_dt a_wednesday ''9am'' = None \<and>
   lead_time_ok a_wednesday ''9am'' half_past_two = Inr True \<and>
   lead_time_ok a_wednesday ''09:00'' last_microsecond = Inl OverflowError"
proof -
  have a: "chosen_dt a_wednesday ''25:00'' = None" by code_simp
  have b: "chosen_dt a_wednesday ''9am'' = None" by code_simp
  have c: "lead_time_ok a_wednesday ''09:00'' last_microsecond = Inl OverflowError" by code_simp
  from malformed_label_tolerated [of a_wednesday "''25:00''" last_microsecond]
    malformed_label_tolerated [of a_wednesday "''9am''" half_past_two] a b c
  show ?thesis by simp
qed

text \<open>
  Claim C3. For every table, date, slot list and clock reading, every slot the
  availability filter returns is one of the given slots and is not taken on that date;
  and the filter does return a list whenever the clock reading plus the lead time is a
  datetime.
\<close>

theorem offered_slots_not_taken:
  "(free_slots c bday slots now = Inr xs \<longrightarrow>
      (\<forall>s \<in> set xs. s \<in> set slots \<and> \<not> slot_taken c (isoformat bday) s)) \<and>
   (valid_datetime (now + timedelta_minutes MIN_LEAD_TIME_MINUTES) \<longrightarrow>
      (\<exists>ys. free_slots c bday slots now = Inr ys))"
proof -
  have "free_slots c bday slots now = Inr xs \<longrightarrow>
      (\<forall>s \<in> set xs. s \<in> set slots \<and> \<not> slot_taken c (isoformat bday) s)"
    using free_slots_subset [of c bday slots now xs] by blast
  moreover have "valid_datetime (now + timedelta_minutes MIN_LEAD_TIME_MINUTES) \<longrightarrow>
      (\<exists>ys. free_slots c bday slots now = Inr ys)"
    using free_slots_total [of now c bday slots] by blast
  ultimately show ?thesis by blast
qed

theorem offered_slots_not_taken_witness:
  "slot_taken one_booking (isoformat a_thursday) ''10:00'' \<and>
   free_slots one_booking a_thursday nine_slots half_past_two =
     Inr [''09:00'', ''11:00'', ''12:00'', ''13:00'', ''14:00'', ''15:00'', ''16:00'', ''17:00'']"
proof -
  have t: "slot_taken one_booking (isoformat a_thursday) ''10:00''" by code_simp
  have v: "valid_datetime (half_past_two + timedelta_minutes MIN_LEAD_TIME_MINUTES)" by code_simp
  have f: "free_slots one_booking a_thursday nine_slots half_past_two =
     Inr [''09:00'', ''11:00'', ''12:00'', ''13:00'', ''14:00'', ''15:00'', ''16:00'', ''17:00'']"
    by code_simp
  from offered_slots_not_taken [of one_booking a_thursday nine_slots half_past_two
      "[''09:00'', ''11:00'', ''12:00'', ''13:00'', ''14:00'', ''15:00'', ''16:00'', ''17:00'']"] t v f
  show ?thesis by simp
qed

lemma label_1500: "strftime_HM \<lparr>hour = 15, minute = 0\<rparr> = ''15:00''"
  by (simp add: strftime_HM_def zfill_def digit_char_def dec.simps)

lemma label_1600: "strftime_HM \<lparr>hour = 16, minute = 0\<rparr> = ''16:00''"
  by (simp add: strftime_HM_def zfill_def digit_char_def dec.simps)

lemma lead_time_example:
  assumes "valid_date d" "0 \<le> e" "e < US_PER_MINUTE"
  shows "lead_time_ok d ''15:00'' (combine d \<lparr>hour = 14, minute = 30\<rparr> + e) = Inr False"
    and "lead_time_ok d ''16:00'' (combine d \<lparr>hour = 14, minute = 30\<rparr> + e) = Inr True"
proof -
  define n where "n = toordinal d"
  from toordinal_bounds [OF assms(1)] have n: "1 \<le> n" "n \<le> 3652059"
    by (simp_all add: n_def MAXORDINAL_def)
  from assms have e: "0 \<le> e" "e < 60000000" by (simp_all add: US_PER_MINUTE_def)
  let ?now = "combine d \<lparr>hour = 14, minute = 30\<rparr> + e"
  have lim: "?now + timedelta_minutes MIN_LEAD_TIME_MINUTES = n * 86400000000 + 55800000000 + e"
    by (simp add: combine_def n_def timedelta_minutes_def MIN_LEAD_TIME_MINUTES_def
        US_PER_DAY_def US_PER_HOUR_def US_PER_MINUTE_def)
  have v: "valid_datetime (?now + timedelta_minutes MIN_LEAD_TIME_MINUTES)"
    unfolding lim using n e by (simp add: valid_datetime_def US_PER_DAY_def MAXORDINAL_def)
  have c15: "chosen_dt d ''15:00'' = Some (n * 86400000000 + 54000000000)"
    using chosen_dt_label [of 15 0 d]
    by (simp add: label_1500 combine_def n_def US_PER_DAY_def US_PER_HOUR_def US_PER_MINUTE_def)
  have c16: "chosen_dt d ''16:00'' = Some (n * 86400000000 + 57600000000)"
    using chosen_dt_label [of 16 0 d]
    by (simp add: label_1600 combine_def n_def US_PER_DAY_def US_PER_HOUR_def US_PER_MINUTE_def)
  show "lead_time_ok d ''15:00'' ?now = Inr False"
    unfolding lead_time_ok_parsed [OF c15 v] lim using e by simp
  show "lead_time_ok d ''16:00'' ?now = Inr True"
    unfolding lead_time_ok_parsed [OF c16 v] lim using e by simp
qed

lemma lead_time_ok_True:
  assumes "lead_time_ok d s now = Inr True" and "chosen_dt d s = Some cdt"
  shows "now + timedelta_minutes MIN_LEAD_TIME_MINUTES \<le> cdt"
  using assms by (simp add: lead_time_ok_def dt_add_valid split: if_splits)

lemma free_slots_lead_time:
  assumes "free_slots c bday slots now = Inr xs" and "s \<in> set xs"
  shows "lead_time_ok bday s now = Inr True"
proof -
  have "0 < MIN_LEAD_TIME_MINUTES" by (simp add: MIN_LEAD_TIME_MINUTES_def)
  with assms(1) have "filter_raising (\<lambda>s. lead_time_ok bday s now)
      (filter (\<lambda>s. \<not> slot_taken c (isoformat bday) s) slots) = Inr xs"
    by (simp add: free_slots_def)
  from filter_raising_Inr [OF this] assms(2) show ?thesis by simp
qed

lemma combine_valid:
  assumes "valid_date d" "0 \<le> h" "h \<le> 23" "0 \<le> m" "m \<le> 59"
  shows "valid_datetime (combine d \<lparr>hour = h, minute = m\<rparr>)"
proof -
  from toordinal_bounds [OF assms(1)] have "1 \<le> toordinal d" "toordinal d \<le> 3652059"
    by (simp_all add: MAXORDINAL_def)
  with assms(2-5) show ?thesis
    by (simp add: valid_datetime_def combine_def US_PER_DAY_def US_PER_HOUR_def
        US_PER_MINUTE_def MAXORDINAL_def)
qed

lemma lead_time_limit_valid:
  assumes "valid_datetime now" and "valid_datetime cdt"
    and "now + timedelta_minutes MIN_LEAD_TIME_MINUTES \<le> cdt"
  shows "valid_datetime (now + timedelta_minutes MIN_LEAD_TIME_MINUTES)"
  using assms
  by (simp add: valid_datetime_def timedelta_minutes_def MIN_LEAD_TIME_MINUTES_def
      US_PER_MINUTE_def)

text \<open>
  Claim C4. For every well-formed label \<open>HH:MM\<close>: a slot the availability filter returns
  never starts before the clock reading plus the lead time; and for a date and a clock
  reading that their types can hold, the filter returns a list that keeps every given
  slot that is not taken and starts at or after the clock reading plus the lead time.
  Where the clock reading plus the lead time is a datetime, \<^verbatim>\<open>lead_time_ok\<close> returns whether
  the slot starts at or after that moment. With the lead time of 60 minutes and a clock
  reading within the minute 14:30 of the day itself, the slot 15:00 is refused and the
  slot 16:00 is accepted.
\<close>

theorem lead_time_respected:
  "(0 \<le> h \<and> h \<le> 23 \<and> 0 \<le> m \<and> m \<le> 59 \<longrightarrow>
      (free_slots c d slots now = Inr xs \<and> strftime_HM \<lparr>hour = h, minute = m\<rparr> \<in> set xs \<longrightarrow>
         now + timedelta_minutes MIN_LEAD_TIME_MINUTES \<le> combine d \<lparr>hour = h, minute = m\<rparr>) \<and>
      (valid_date d \<and> valid_datetime now \<and>
       strftime_HM \<lparr>hour = h, minute = m\<rparr> \<in> set slots \<and>
       \<not> slot_taken c (isoformat d) (strftime_HM \<lparr>hour = h, minute = m\<rparr>) \<and>
       now + timedelta_minutes MIN_LEAD_TIME_MINUTES \<le> combine d \<lparr>hour = h, minute = m\<rparr> \<longrightarrow>
         (\<exists>ys. free_slots c d slots now = Inr ys \<and>
            strftime_HM \<lparr>hour = h, minute = m\<rparr> \<in> set ys)) \<and>
      (valid_datetime (now + timedelta_minutes MIN_LEAD_TIME_MINUTES) \<longrightarrow>
         lead_time_ok d (strftime_HM \<lparr>hour = h, minute = m\<rparr>) now =
           Inr (now + timedelta_minutes MIN_LEAD_TIME_MINUTES \<le> combine d \<lparr>hour = h, minute = m\<rparr>))) \<and>
   (valid_date d \<and> 0 \<le> e \<and> e < US_PER_MINUTE \<longrightarrow>
      lead_time_ok d ''15:00'' (combine d \<lparr>hour = 14, minute = 30\<rparr> + e) = Inr False \<and>
      lead_time_ok d ''16:00'' (combine d \<lparr>hour = 14, minute = 30\<rparr> + e) = Inr True)"
proof -
  let ?lim = "now + timedelta_minutes MIN_LEAD_TIME_MINUTES"
  let ?s = "strftime_HM \<lparr>hour = h, minute = m\<rparr>"
  let ?t = "combine d \<lparr>hour = h, minute = m\<rparr>"
  have never: "?lim \<le> ?t"
    if hm: "0 \<le> h" "h \<le> 23" "0 \<le> m" "m \<le> 59"
      and f: "free_slots c d slots now = Inr xs" "?s \<in> set xs"
  proof -
    have "lead_time_ok d ?s now = Inr True" by (rule free_slots_lead_time [OF f])
    then show ?thesis by (rule lead_time_ok_True) (rule chosen_dt_label [OF hm])
  qed
  have keeps: "\<exists>ys. free_slots c d slots now = Inr ys \<and> ?s \<in> set ys"
    if hm: "0 \<le> h" "h \<le> 23" "0 \<le> m" "m \<le> 59"
      and v: "valid_date d" "valid_datetime now"
      and s: "?s \<in> set slots" "\<not> slot_taken c (isoformat d) ?s" "?lim \<le> ?t"
  proof -
    have "valid_datetime ?t" by (rule combine_valid [OF v(1) hm])
    with v(2) have lim: "valid_datetime ?lim" using s(3) by (rule lead_time_limit_valid)
    have "?s \<in> set (filter (\<lambda>s. \<not> slot_taken c (isoformat d) s \<and>
                  (case chosen_dt d s of None \<Rightarrow> True | Some cdt \<Rightarrow> ?lim \<le> cdt)) slots)"
      using s by (simp add: chosen_dt_label [OF hm])
    then show ?thesis
      using free_slots_total [OF lim, of c d slots] by simp
  qed
  have decides: "lead_time_ok d ?s now = Inr (?lim \<le> ?t)"
    if hm: "0 \<le> h" "h \<le> 23" "0 \<le> m" "m \<le> 59" and v: "valid_datetime ?lim"
    by (rule lead_time_ok_parsed [OF chosen_dt_label [OF hm] v])
  have example: "lead_time_ok d ''15:00'' (combine d \<lparr>hour = 14, minute = 30\<rparr> + e) = Inr False \<and>
      lead_time_ok d ''16:00'' (combine d \<lparr>hour = 14, minute = 30\<rparr> + e) = Inr True"
    if "valid_date d" "0 \<le> e" "e < US_PER_MINUTE"
    using lead_time_example [OF that] by simp
  from never keeps decides example show ?thesis by blast
qed

theorem lead_time_respected_witness:
  "lead_time_ok a_wednesday ''15:00'' half_past_two = Inr False \<and>
   lead_time_ok a_wednesday ''16:00'' half_past_two = Inr True \<and>
   free_slots get_conn a_wednesday nine_slots half_past_two = Inr [''16:00'', ''17:00''] \<and>
   valid_datetime half_past_two \<and>
   \<not> slot_taken get_conn (isoformat a_wednesday) ''16:00'' \<and>
   half_past_two + timedelta_minutes MIN_LEAD_TIME_MINUTES
     \<le> combine a_wednesday \<lparr>hour = 16, minute = 0\<rparr>"
proof -
  have v: "valid_datetime (half_past_two + timedelta_minutes MIN_LEAD_TIME_MINUTES)" by code_simp
  have n: "valid_datetime half_past_two" by code_simp
  have t: "\<not> slot_taken get_conn (isoformat a_wednesday) ''16:00''" by code_simp
  have e: "(0::int) \<le> 0 \<and> (0::int) < US_PER_MINUTE" by (simp add: US_PER_MINUTE_def)
  have f: "free_slots get_conn a_wednesday nine_slots half_past_two = Inr [''16:00'', ''17:00'']"
    by code_simp
  from lead_time_respected [where h = 16 and m = 0 and c = get_conn and d = a_wednesday
      and slots = nine_slots and now = half_past_two and xs = "[''16:00'', ''17:00'']" and e = 0]
    v n t e f a_wednesday_valid
  show ?thesis by (simp add: half_past_two_def label_1600)
qed

end
